theory Spec2Isabelle
  imports Complex_Main
begin

unbundle bit_operations_syntax

section \<open>Data model\<close>

text \<open>
  The program is Python. Its floats are modelled as the real numbers, its unbounded ints
  as \<open>int\<close>. Rounding is outside this model; the operations on floats that raise are
  modelled with their errors (see \<open>float_pow\<close>, \<open>int_to_float\<close> and \<open>float_div\<close>
  below). Objects that the program mutates in place are passed and returned explicitly;
  a site is addressed by its index in the network's site list, so that two references
  to the same site object are the same index.
\<close>

datatype error = AssertionError | TypeError | ValueError | OverflowError | ZeroDivisionError

definition and_then :: "error + 'a \<Rightarrow> ('a \<Rightarrow> error + 'b) \<Rightarrow> error + 'b" where
  "and_then r f = (case r of Inl e \<Rightarrow> Inl e | Inr v \<Rightarrow> f v)"

subsection \<open>Python's float operations that raise\<close>

text \<open>
  A float is an IEEE double. A real number whose magnitude is below \<open>float_bound\<close>
  rounds to a finite double; from \<open>float_bound\<close> on it rounds to infinity, and
  Python raises \<^verbatim>\<open>OverflowError\<close> where a power of a float or the conversion of an int
  to a float would give infinity. \<^verbatim>\<open>x / n\<close> with a float \<open>x\<close> and an int \<open>n\<close> first
  converts \<open>n\<close>. Dividing by zero raises \<^verbatim>\<open>ZeroDivisionError\<close>. These are the
  operations of Python's own \<^verbatim>\<open>float\<close>, the type the attributes of a site are annotated
  with. (On a NumPy float an overflowing power and a division by zero give infinity or
  NaN with a warning and do not raise; the model has no value in those cases either.)
\<close>

definition float_bound :: real where
  "float_bound = 2 ^ 1024 - 2 ^ 970"

definition float_pow :: "real \<Rightarrow> nat \<Rightarrow> error + real" where
  "float_pow x k = (if \<bar>x ^ k\<bar> < float_bound then Inr (x ^ k) else Inl OverflowError)"

definition int_to_float :: "int \<Rightarrow> error + real" where
  "int_to_float n = (if \<bar>of_int n\<bar> < float_bound then Inr (of_int n) else Inl OverflowError)"

definition float_div :: "real \<Rightarrow> real \<Rightarrow> error + real" where
  "float_div x y = (if y = 0 then Inl ZeroDivisionError else Inr (x / y))"

text \<open>
  The builtin \<^verbatim>\<open>sum\<close> over a generator: the items are produced in order, and the first
  one that raises ends the sum.
\<close>

primrec sum_items :: "(error + real) list \<Rightarrow> error + real" where
  "sum_items [] = Inr 0"
| "sum_items (item # items) =
     and_then item (\<lambda>x. and_then (sum_items items) (\<lambda>s. Inr (x + s)))"

text \<open>\<^verbatim>\<open>models/geolocation.py\<close>: class \<^verbatim>\<open>GeoLocation\<close>.\<close>

record GeoLocation =
  lat :: real
  long :: real

text \<open>
  \<^verbatim>\<open>models/geolocation.py\<close>: class \<^verbatim>\<open>ReferenceGeoLocation(GeoLocation)\<close>. The attribute
  \<^verbatim>\<open>neighborhood_sites\<close> is \<^verbatim>\<open>None\<close> until it is first computed, then a set of site indices.
\<close>

record ReferenceGeoLocation = GeoLocation +
  neighborhood_radius :: real
  min_supply :: int
  neighborhood_sites :: "nat set option"

text \<open>
  \<^verbatim>\<open>models/site.py\<close>: class \<^verbatim>\<open>EVChargingSite\<close>. The station count and the capacity
  bounds are taken at their annotated type \<^verbatim>\<open>int\<close>, the location as present.
\<close>

record EVChargingSite =
  fixed_cost :: real
  variable_cost :: real
  unit_revenue :: real
  arrival_rate :: real
  effective_arrival_rate :: real
  mean_charging_time :: real
  num_charging_stations :: int
  max_capacity :: int
  min_capacity :: int
  geolocation :: GeoLocation
  name :: "string option"

text \<open>\<^verbatim>\<open>models/network.py\<close>: class \<^verbatim>\<open>EVChargingNetwork\<close>.\<close>

record EVChargingNetwork =
  sites :: "EVChargingSite list"
  gamma :: real
  distance_matrix :: "real list list"

text \<open>
  \<^verbatim>\<open>algorithm/optimized_network.py\<close>: class \<^verbatim>\<open>OptimizedEVChargingNetwork(EVChargingNetwork)\<close>.
  The budget is taken at its annotated type \<^verbatim>\<open>int\<close>.
\<close>

record OptimizedEVChargingNetwork = EVChargingNetwork +
  reference_locations :: "ReferenceGeoLocation list"
  budget :: int
  epsilon :: real
  sampling_temperature :: real
  num_local_search_iters :: nat
  mip_gap :: "real option"
  time_limit :: "real option"
  verbose :: bool
  local_search_history :: "real list"

section \<open>GeoLocation\<close>

text \<open>
  \<^verbatim>\<open>
  def validate(self) -> None:
      assert -90 <= self.lat <= 90, f"Latitude {self.long} is outside ..."
      assert -180 <= self.lat <= 180, f"Longitude {self.long} is outside ..."
  \<close>
  Both assertions read \<^verbatim>\<open>self.lat\<close>.
\<close>

definition validate :: "'a GeoLocation_scheme \<Rightarrow> error + unit" where
  "validate self =
     (if \<not> (- 90 \<le> lat self \<and> lat self \<le> 90) then Inl AssertionError
      else if \<not> (- 180 \<le> lat self \<and> lat self \<le> 180) then Inl AssertionError
      else Inr ())"

section \<open>EVChargingSite\<close>

text \<open>
  \<^verbatim>\<open>
  def expected_utilization(self) -> float:
      utilization_factor = self.effective_arrival_rate * self.mean_charging_time
      normalization_constant = 1 + sum(
          utilization_factor ** k / factorial(k)
          for k in range(1, self.num_charging_stations + 1))
      return sum(
          utilization_factor ** k / factorial(k - 1)
          for k in range(1, self.num_charging_stations + 1)
      ) / normalization_constant
  \<close>
  \<^verbatim>\<open>range(1, n + 1)\<close> is the integer interval \<open>[1..n]\<close>, empty when \<open>n < 1\<close>. Each
  item \<^verbatim>\<open>utilization_factor ** k / factorial(j)\<close> takes the power, then the factorial
  (an exact int), then divides. The first sum is complete before the second starts.
\<close>

definition power_over_factorial :: "real \<Rightarrow> int \<Rightarrow> int \<Rightarrow> error + real" where
  "power_over_factorial utilization_factor k j =
     and_then (float_pow utilization_factor (nat k)) (\<lambda>p.
     and_then (int_to_float (fact (nat j))) (\<lambda>f.
     float_div p f))"

definition expected_utilization :: "'a EVChargingSite_scheme \<Rightarrow> error + real" where
  "expected_utilization self =
     (let utilization_factor = effective_arrival_rate self * mean_charging_time self
      in and_then
           (sum_items (map (\<lambda>k. power_over_factorial utilization_factor k k)
                         [1..num_charging_stations self])) (\<lambda>s.
         let normalization_constant = 1 + s
         in and_then
              (sum_items (map (\<lambda>k. power_over_factorial utilization_factor k (k - 1))
                            [1..num_charging_stations self])) (\<lambda>busy.
            float_div busy normalization_constant)))"

text \<open>
  \<^verbatim>\<open>
  def profit(self) -> float:
      revenue = self.unit_revenue * self.expected_utilization()
      cost = self.variable_cost * self.num_charging_stations - self.fixed_cost
      return revenue - cost
  \<close>
\<close>

definition profit :: "'a EVChargingSite_scheme \<Rightarrow> error + real" where
  "profit self =
     and_then (expected_utilization self) (\<lambda>utilization.
       let revenue = unit_revenue self * utilization;
           cost = variable_cost self * of_int (num_charging_stations self) - fixed_cost self
       in Inr (revenue - cost))"

section \<open>EVChargingNetwork\<close>

text \<open>
  The great-circle distance \<^verbatim>\<open>haversine\<close> comes from an external package; it is the
  parameter \<open>distance\<close> below.
  \<^verbatim>\<open>
  def _compute_distance_matrix(self) -> None:
      num_sites = len(self.sites)
      self.distance_matrix = np.zeros((num_sites, num_sites))
      for i in range(num_sites):
          for j in range(i + 1, num_sites):
              self.distance_matrix[i, j] = self.distance_matrix[j, i] = \
                  self.sites[i].geolocation.distance(self.sites[j].geolocation)
  \<close>
\<close>

definition set_entry :: "nat \<Rightarrow> nat \<Rightarrow> real \<Rightarrow> real list list \<Rightarrow> real list list" where
  "set_entry i j v m = m[i := (m ! i)[j := v]]"

definition compute_distance_matrix ::
  "(GeoLocation \<Rightarrow> GeoLocation \<Rightarrow> real) \<Rightarrow> EVChargingSite list \<Rightarrow> real list list" where
  "compute_distance_matrix distance ss =
     (let num_sites = length ss
      in fold (\<lambda>i. fold (\<lambda>j m.
                 let d = distance (geolocation (ss ! i)) (geolocation (ss ! j))
                 in set_entry j i d (set_entry i j d m)) [i + 1..<num_sites])
           [0..<num_sites] (replicate num_sites (replicate num_sites 0)))"

text \<open>
  \<^verbatim>\<open>
  def update_effective_arrival_rates(self) -> None:
      for i, site in enumerate(self.sites):
          if site.num_charging_stations:
              site.effective_arrival_rate = site.arrival_rate / (
                  np.exp(-self.gamma * self.distance_matrix[i] ** 2)
                  * np.array([other.num_charging_stations / site.num_charging_stations
                              for other in self.sites])
              ).sum()
  \<close>
  The guard is Python truthiness of an int: any non-zero count. The product of the two
  arrays is elementwise; row \<open>i\<close> of the matrix has one entry per site by construction.
  The loop mutates the sites in place, one index after the other.
\<close>

definition spillover_divisor ::
  "real \<Rightarrow> real list \<Rightarrow> 'a EVChargingSite_scheme list \<Rightarrow> 'a EVChargingSite_scheme \<Rightarrow> real" where
  "spillover_divisor g row ss site =
     sum_list (map2 (\<lambda>d other.
        exp (- g * d\<^sup>2)
        * (of_int (num_charging_stations other) / of_int (num_charging_stations site)))
        row ss)"

fun update_rates_loop ::
  "nat list \<Rightarrow> 'a EVChargingNetwork_scheme \<Rightarrow> 'a EVChargingNetwork_scheme" where
  "update_rates_loop [] self = self"
| "update_rates_loop (i # rest) self =
     (let site = sites self ! i
      in update_rates_loop rest
           (if num_charging_stations site \<noteq> 0
            then self\<lparr>sites := (sites self)[i := site\<lparr>effective_arrival_rate :=
                   arrival_rate site
                   / spillover_divisor (gamma self) (distance_matrix self ! i) (sites self) site\<rparr>]\<rparr>
            else self))"

definition update_effective_arrival_rates ::
  "'a EVChargingNetwork_scheme \<Rightarrow> 'a EVChargingNetwork_scheme" where
  "update_effective_arrival_rates self = update_rates_loop [0..<length (sites self)] self"

text \<open>
  \<^verbatim>\<open>
  def __init__(self, sites, gamma):
      self.sites = sites
      self.gamma = gamma
      self._compute_distance_matrix()
      self.update_effective_arrival_rates()
  \<close>
\<close>

definition init_network ::
  "(GeoLocation \<Rightarrow> GeoLocation \<Rightarrow> real) \<Rightarrow> EVChargingSite list \<Rightarrow> real \<Rightarrow> EVChargingNetwork" where
  "init_network distance ss g =
     update_effective_arrival_rates
       \<lparr>sites = ss, gamma = g, distance_matrix = compute_distance_matrix distance ss\<rparr>"

definition total_charging_stations :: "'a EVChargingNetwork_scheme \<Rightarrow> int" where
  "total_charging_stations self = (\<Sum>site\<leftarrow>sites self. num_charging_stations site)"

text \<open>
  \<^verbatim>\<open>
  def total_profit(self) -> float:
      return sum(site.profit() for site in self.sites)
  \<close>
\<close>

definition total_profit :: "'a EVChargingNetwork_scheme \<Rightarrow> error + real" where
  "total_profit self = sum_items (map profit (sites self))"

section \<open>OptimizedEVChargingNetwork\<close>

subsection \<open>The feasibility check\<close>

text \<open>
  \<^verbatim>\<open>
  def _is_feasible(self) -> bool:
      return (
          self.total_charging_stations() <= self.budget
          & np.all(site.num_charging_stations <= site.max_capaicty for site in self.sites)
          & np.all(site.num_charging_stations >= site.min_capaicty for site in self.sites)
          & np.all(
              sum(self.sites[i].num_charging_stations for i in location.neighborhood_sites)
              >= location.min_supply
              for location in self.reference_locations)
          & np.all(isinstance(site.num_charging_stations, int) for site in self.sites)
      )
  \<close>
  In Python \<^verbatim>\<open>&\<close> binds tighter than \<^verbatim>\<open><=\<close>, and \<^verbatim>\<open>&\<close> associates to the left, so
  the expression is
  \<^verbatim>\<open>total <= ((((budget & A1) & A2) & A3) & A4)\<close>, each \<^verbatim>\<open>Ak\<close> being \<^verbatim>\<open>np.all\<close> of a
  generator object. \<^verbatim>\<open>np.all\<close> does not iterate a generator: it wraps the object in a
  zero-dimensional array. The generators are therefore never run, and the comparisons
  written inside them (with the attribute names \<^verbatim>\<open>max_capaicty\<close> and \<^verbatim>\<open>min_capaicty\<close>, which
  no site has) are never evaluated. What \<^verbatim>\<open>np.all\<close> returns for that array is a
  matter of the NumPy release and is the parameter \<open>numpy_all\<close>: either the object
  itself (the reduction of an object array yields one of its elements), or its truth
  value, which for a generator object is \<^verbatim>\<open>True\<close>.
\<close>

datatype pyval = IntV int | BoolV bool | GeneratorV

datatype numpy_all = ReturnsObject | ReturnsBool

definition np_all_generator :: "numpy_all \<Rightarrow> pyval" where
  "np_all_generator np = (case np of ReturnsObject \<Rightarrow> GeneratorV | ReturnsBool \<Rightarrow> BoolV True)"

text \<open>
  The operator \<^verbatim>\<open>&\<close>: bitwise on ints, a boolean counting as 0 or 1; no \<^verbatim>\<open>&\<close> exists
  between an int and a generator object.
\<close>

fun py_and :: "pyval \<Rightarrow> pyval \<Rightarrow> error + pyval" where
  "py_and (IntV a) (IntV b) = Inr (IntV (a AND b))"
| "py_and (IntV a) (BoolV b) = Inr (IntV (a AND of_bool b))"
| "py_and (BoolV a) (IntV b) = Inr (IntV (of_bool a AND b))"
| "py_and (BoolV a) (BoolV b) = Inr (BoolV (a \<and> b))"
| "py_and _ _ = Inl TypeError"

fun py_le :: "int \<Rightarrow> pyval \<Rightarrow> error + bool" where
  "py_le a (IntV b) = Inr (a \<le> b)"
| "py_le a (BoolV b) = Inr (a \<le> of_bool b)"
| "py_le a GeneratorV = Inl TypeError"

definition is_feasible :: "numpy_all \<Rightarrow> 'a OptimizedEVChargingNetwork_scheme \<Rightarrow> error + bool" where
  "is_feasible np self =
     and_then (py_and (IntV (budget self)) (np_all_generator np)) (\<lambda>r1.
     and_then (py_and r1 (np_all_generator np)) (\<lambda>r2.
     and_then (py_and r2 (np_all_generator np)) (\<lambda>r3.
     and_then (py_and r3 (np_all_generator np)) (\<lambda>r4.
     py_le (total_charging_stations self) r4))))"

text \<open>
  The four conditions as the specification states them, for comparison with the code:
  total at most the budget; every count within the site's bounds; every reference
  location's neighbourhood supplied; every count a non-negative integer.
\<close>

definition is_feasible_spec :: "'a OptimizedEVChargingNetwork_scheme \<Rightarrow> bool" where
  "is_feasible_spec self \<longleftrightarrow>
     total_charging_stations self \<le> budget self
     \<and> list_all (\<lambda>site. min_capacity site \<le> num_charging_stations site
                       \<and> num_charging_stations site \<le> max_capacity site) (sites self)
     \<and> list_all (\<lambda>location.
           min_supply location
           \<le> (\<Sum>i \<in> (case neighborhood_sites location of None \<Rightarrow> {} | Some N \<Rightarrow> N).
                num_charging_stations (sites self ! i)))
         (reference_locations self)
     \<and> list_all (\<lambda>site. 0 \<le> num_charging_stations site) (sites self)"

subsection \<open>Pairwise reallocation\<close>

text \<open>
  \<^verbatim>\<open>
  def _optimize_pair(self, site, neighbor) -> float:
      best_solution = site.num_charging_stations, neighbor.num_charging_stations
      best_obj_val = self.total_profit()
      num_available_stations = sum(best_solution)
      for z in range(site.min_capacity, site.max_capacity + 1):
          for z_ in range(neighbor.min_capacity,
                          min(neighbor.max_capacity, num_available_stations - z) + 1):
              site.num_charging_stations, neighbor.num_charging_stations = z, z_
              if self._is_feasible():
                  self.update_effective_arrival_rates()
                  obj_val = self.total_profit()
                  if obj_val > best_obj_val:
                      best_solution = z, z_
                      best_obj_val = obj_val
      site.num_charging_stations, neighbor.num_charging_stations = best_solution
      self.update_effective_arrival_rates()
      return best_obj_val
  \<close>
  The two arguments are sites of the network, given here by their indices \<open>a\<close> and
  \<open>b\<close>. The tuple assignment stores into \<open>site\<close> first and into \<open>neighbor\<close> second;
  when both are the same object the second store overwrites the first. The bounds of the
  two ranges read only the capacities and \<open>num_available_stations\<close>, which the loop body
  never changes, so the pairs \<open>(z, z_)\<close> are listed beforehand in the order the loops
  visit them.
\<close>

definition set_stations ::
  "nat \<Rightarrow> int \<Rightarrow> 'a EVChargingNetwork_scheme \<Rightarrow> 'a EVChargingNetwork_scheme" where
  "set_stations a z self =
     self\<lparr>sites := (sites self)[a := (sites self ! a)\<lparr>num_charging_stations := z\<rparr>]\<rparr>"

definition assign_pair ::
  "nat \<Rightarrow> nat \<Rightarrow> int \<times> int \<Rightarrow> 'a EVChargingNetwork_scheme \<Rightarrow> 'a EVChargingNetwork_scheme" where
  "assign_pair a b sol self = set_stations b (snd sol) (set_stations a (fst sol) self)"

definition pair_candidates ::
  "'a EVChargingSite_scheme \<Rightarrow> 'a EVChargingSite_scheme \<Rightarrow> int \<Rightarrow> (int \<times> int) list" where
  "pair_candidates site neighbor num_available_stations =
     concat (map (\<lambda>z. map (\<lambda>z'. (z, z'))
                   [min_capacity neighbor..min (max_capacity neighbor) (num_available_stations - z)])
               [min_capacity site..max_capacity site])"

primrec pair_loop ::
  "numpy_all \<Rightarrow> nat \<Rightarrow> nat \<Rightarrow> (int \<times> int) list
   \<Rightarrow> 'a OptimizedEVChargingNetwork_scheme \<Rightarrow> int \<times> int \<Rightarrow> real
   \<Rightarrow> error + ('a OptimizedEVChargingNetwork_scheme \<times> (int \<times> int) \<times> real)" where
  "pair_loop np a b [] self best_solution best_obj_val = Inr (self, best_solution, best_obj_val)"
| "pair_loop np a b (c # cs) self best_solution best_obj_val =
     (let self1 = assign_pair a b c self
      in case is_feasible np self1 of
           Inl e \<Rightarrow> Inl e
         | Inr feasible \<Rightarrow>
             if feasible
             then (let self2 = update_effective_arrival_rates self1
                   in case total_profit self2 of
                        Inl e \<Rightarrow> Inl e
                      | Inr obj_val \<Rightarrow>
                          if obj_val > best_obj_val
                          then pair_loop np a b cs self2 c obj_val
                          else pair_loop np a b cs self2 best_solution best_obj_val)
             else pair_loop np a b cs self1 best_solution best_obj_val)"

definition optimize_pair ::
  "numpy_all \<Rightarrow> nat \<Rightarrow> nat \<Rightarrow> 'a OptimizedEVChargingNetwork_scheme
   \<Rightarrow> error + ('a OptimizedEVChargingNetwork_scheme \<times> real)" where
  "optimize_pair np a b self =
     (let site = sites self ! a;
          neighbor = sites self ! b;
          best_solution = (num_charging_stations site, num_charging_stations neighbor)
      in case total_profit self of
           Inl e \<Rightarrow> Inl e
         | Inr best_obj_val \<Rightarrow>
             (let num_available_stations = fst best_solution + snd best_solution
              in case pair_loop np a b (pair_candidates site neighbor num_available_stations)
                        self best_solution best_obj_val of
                   Inl e \<Rightarrow> Inl e
                 | Inr (self1, best_solution1, best_obj_val1) \<Rightarrow>
                     Inr (update_effective_arrival_rates
                            (assign_pair a b best_solution1 self1),
                          best_obj_val1)))"

subsection \<open>Local search\<close>

text \<open>
  \<^verbatim>\<open>
  def _local_search(self) -> None:
      num_sites = len(self.sites)
      for t in range(self.num_local_search_iters):
          i = np.random.choice(num_sites)
          sampling_weights = self.distance_matrix[i] * self.sampling_temperature
          sampling_weights[i] = 0
          j = np.random.choice(num_sites, p=sampling_weights / sampling_weights.sum())
          best_obj_val = self._optimize_pair(
              site=self.sites[j],
              neighbor=self.sites[j]
          )
          self.local_search_history.append(best_obj_val)
  \<close>
  The two random draws are inputs of the model: \<open>i\<close> is any index below the number of
  sites, and \<open>j\<close> is an index whose entry of \<open>sampling_probabilities\<close> is positive.
  Both arguments of the call are \<^verbatim>\<open>self.sites[j]\<close>.
\<close>

definition sampling_weights :: "'a OptimizedEVChargingNetwork_scheme \<Rightarrow> nat \<Rightarrow> real list" where
  "sampling_weights self i =
     (map (\<lambda>d. d * sampling_temperature self) (distance_matrix self ! i))[i := 0]"

definition sampling_probabilities :: "'a OptimizedEVChargingNetwork_scheme \<Rightarrow> nat \<Rightarrow> real list" where
  "sampling_probabilities self i =
     map (\<lambda>w. w / sum_list (sampling_weights self i)) (sampling_weights self i)"

definition may_sample :: "'a OptimizedEVChargingNetwork_scheme \<Rightarrow> nat \<Rightarrow> nat \<Rightarrow> bool" where
  "may_sample self i j \<longleftrightarrow>
     i < length (sites self) \<and> j < length (sites self)
     \<and> j < length (sampling_probabilities self i) \<and> 0 < sampling_probabilities self i ! j"

definition local_search_iteration ::
  "numpy_all \<Rightarrow> nat \<Rightarrow> nat \<Rightarrow> 'a OptimizedEVChargingNetwork_scheme
   \<Rightarrow> error + 'a OptimizedEVChargingNetwork_scheme" where
  "local_search_iteration np i j self =
     (case optimize_pair np j j self of
        Inl e \<Rightarrow> Inl e
      | Inr (self1, best_obj_val) \<Rightarrow>
          Inr (self1\<lparr>local_search_history := local_search_history self1 @ [best_obj_val]\<rparr>))"

primrec local_search ::
  "numpy_all \<Rightarrow> (nat \<times> nat) list \<Rightarrow> 'a OptimizedEVChargingNetwork_scheme
   \<Rightarrow> error + 'a OptimizedEVChargingNetwork_scheme" where
  "local_search np [] self = Inr self"
| "local_search np (draw # draws) self =
     (case local_search_iteration np (fst draw) (snd draw) self of
        Inl e \<Rightarrow> Inl e
      | Inr self1 \<Rightarrow> local_search np draws self1)"

subsection \<open>Relaxation\<close>

text \<open>
  \<^verbatim>\<open>
  adjusted_max_capacity = np.zeros(num_sites)
  for i, site in enumerate(self.sites):
      adjusted_max_capacity[i] = min(
          site.max_capacity,
          np.min(self.epsilon * np.exp(self.gamma * self.distance_matrix[i] ** 2))
      )
  \<close>
  \<^verbatim>\<open>np.min\<close> runs over the whole of row \<open>i\<close>, the diagonal entry included, and raises
  on an empty array.
\<close>

definition np_min :: "real list \<Rightarrow> error + real" where
  "np_min xs = (if xs = [] then Inl ValueError else Inr (Min (set xs)))"

definition adjusted_max_capacity ::
  "'a OptimizedEVChargingNetwork_scheme \<Rightarrow> nat \<Rightarrow> error + real" where
  "adjusted_max_capacity self i =
     (case np_min (map (\<lambda>d. epsilon self * exp (gamma self * d\<^sup>2)) (distance_matrix self ! i)) of
        Inl e \<Rightarrow> Inl e
      | Inr m \<Rightarrow> Inr (min (of_int (max_capacity (sites self ! i))) m))"

text \<open>
  The cap as the specification words it, for comparison: the smaller of the site's
  maximum capacity and \<open>epsilon\<close> times the minimum, over the other sites \<open>j \<noteq> i\<close>, of
  \<open>exp (gamma * distance(i, j)\<^sup>2)\<close>.
\<close>

definition adjusted_max_capacity_spec ::
  "'a OptimizedEVChargingNetwork_scheme \<Rightarrow> nat \<Rightarrow> real" where
  "adjusted_max_capacity_spec self i =
     min (of_int (max_capacity (sites self ! i)))
         (epsilon self
          * Min ((\<lambda>j. exp (gamma self * (distance_matrix self ! i ! j)\<^sup>2))
                 ` ({..<length (sites self)} - {i})))"

text \<open>
  The rest of \<^verbatim>\<open>_solve_relaxation\<close> builds a binary program (marginal profits as the
  objective; budget, capacity, coverage and ordering constraints) with the external
  solver package and has it solved; none of that package is part of this program, and
  whether the method gets as far as the statements below is up to it (its \<^verbatim>\<open>addConstrs\<close>
  takes a generator of constraints and is handed a single constraint for the budget).
  After the solver call, the method reads the solver's values and stores their sums:
  \<^verbatim>\<open>
  z = model.getAttr("x", z)
  for i, site in enumerate(self.sites):
      site.num_charging_stations = sum(z[i, k] for k in range(num_stations))
  self.update_effective_arrival_rates()
  \<close>
  The solver's attribute \<^verbatim>\<open>x\<close> is a floating-point attribute: the value it reports for
  the variable of site \<open>i\<close> and slot \<open>k\<close> is a float, here the parameter \<open>x\<close>. A Python
  number is an int or a float; the builtin \<^verbatim>\<open>sum\<close> starts from the int 0 and adds the
  items in order, and an int plus a float is a float.
\<close>

datatype pynum = PyInt int | PyFloat real

fun py_add :: "pynum \<Rightarrow> pynum \<Rightarrow> pynum" where
  "py_add (PyInt a) (PyInt b) = PyInt (a + b)"
| "py_add (PyInt a) (PyFloat b) = PyFloat (of_int a + b)"
| "py_add (PyFloat a) (PyInt b) = PyFloat (a + of_int b)"
| "py_add (PyFloat a) (PyFloat b) = PyFloat (a + b)"

definition py_sum :: "pynum list \<Rightarrow> pynum" where
  "py_sum items = fold (\<lambda>item acc. py_add acc item) items (PyInt 0)"

text \<open>The value that the loop assigns to \<^verbatim>\<open>site.num_charging_stations\<close> of site \<open>i\<close>.\<close>

definition assigned_station_count :: "(nat \<Rightarrow> nat \<Rightarrow> real) \<Rightarrow> int \<Rightarrow> nat \<Rightarrow> pynum" where
  "assigned_station_count x num_stations i =
     py_sum (map (\<lambda>k. PyFloat (x i k)) [0..<nat num_stations])"

text \<open>
  What the program itself asks of a station count: \<^verbatim>\<open>_is_feasible\<close> writes
  \<^verbatim>\<open>isinstance(site.num_charging_stations, int)\<close>, and \<^verbatim>\<open>expected_utilization\<close> passes
  \<^verbatim>\<open>self.num_charging_stations + 1\<close> to \<^verbatim>\<open>range\<close>, which accepts an int and raises
  \<^verbatim>\<open>TypeError\<close> for a float.
\<close>

fun isinstance_int :: "pynum \<Rightarrow> bool" where
  "isinstance_int (PyInt n) = True"
| "isinstance_int (PyFloat x) = False"

fun range_from_1 :: "pynum \<Rightarrow> error + int list" where
  "range_from_1 (PyInt n) = Inr [1..n]"
| "range_from_1 (PyFloat x) = Inl TypeError"

section \<open>Auxiliary definitions\<close>

text \<open>
  What \<open>update_effective_arrival_rates\<close> leaves at index \<open>i\<close>, in closed form; the
  lemma \<open>update_sites\<close> below proves that the loop computes it.
\<close>

definition updated_site :: "'a EVChargingNetwork_scheme \<Rightarrow> nat \<Rightarrow> EVChargingSite" where
  "updated_site self i =
     (let site = sites self ! i
      in if num_charging_stations site \<noteq> 0
         then site\<lparr>effective_arrival_rate :=
                arrival_rate site
                / spillover_divisor (gamma self) (distance_matrix self ! i) (sites self) site\<rparr>
         else site)"

text \<open>
  The shape of a distance matrix: \<open>n\<close> rows of \<open>n\<close> entries each, zero on the diagonal.
\<close>

definition square_zero_diagonal :: "nat \<Rightarrow> real list list \<Rightarrow> bool" where
  "square_zero_diagonal n m \<longleftrightarrow>
     length m = n \<and> (\<forall>r<n. length (m ! r) = n \<and> m ! r ! r = 0)"

text \<open>
  Everything of a network that \<open>update_effective_arrival_rates\<close> reads and does not
  write: the sites with their rates blanked, \<open>gamma\<close> and the distance matrix. Two
  networks are in the relation \<open>same_static a b\<close> when they differ at most in rates and
  in the station counts of the sites \<open>a\<close> and \<open>b\<close>.
\<close>

definition static_part ::
  "'a EVChargingNetwork_scheme \<Rightarrow> EVChargingSite list \<times> real \<times> real list list" where
  "static_part self =
     (map (\<lambda>site. site\<lparr>effective_arrival_rate := 0\<rparr>) (sites self), gamma self,
      distance_matrix self)"

definition same_static ::
  "nat \<Rightarrow> nat \<Rightarrow> 'a EVChargingNetwork_scheme \<Rightarrow> 'a EVChargingNetwork_scheme \<Rightarrow> bool" where
  "same_static a b X X0 \<longleftrightarrow>
     (\<forall>s. static_part (assign_pair a b s X) = static_part (assign_pair a b s X0))"

text \<open>
  Concrete sites and networks on which the definitions are evaluated. The economic
  parameters are the defaults of \<^verbatim>\<open>data/network_factory.py\<close>.
\<close>

definition test_site :: "real \<Rightarrow> int \<Rightarrow> int \<Rightarrow> int \<Rightarrow> EVChargingSite" where
  "test_site rate n lo hi =
     \<lparr>fixed_cost = 1, variable_cost = 1/2, unit_revenue = 2, arrival_rate = rate,
      effective_arrival_rate = rate, mean_charging_time = 1, num_charging_stations = n,
      max_capacity = hi, min_capacity = lo, geolocation = \<lparr>lat = 0, long = 0\<rparr>,
      name = None\<rparr>"

definition test_reference :: "nat set \<Rightarrow> int \<Rightarrow> ReferenceGeoLocation" where
  "test_reference N s =
     \<lparr>lat = 0, long = 0, neighborhood_radius = 1, min_supply = s, neighborhood_sites = Some N\<rparr>"

definition test_network ::
  "EVChargingSite list \<Rightarrow> real list list \<Rightarrow> ReferenceGeoLocation list \<Rightarrow> int
   \<Rightarrow> OptimizedEVChargingNetwork" where
  "test_network ss m refs b =
     \<lparr>sites = ss, gamma = 1, distance_matrix = m, reference_locations = refs, budget = b,
      epsilon = 1, sampling_temperature = 1, num_local_search_iters = 100,
      mip_gap = None, time_limit = None, verbose = False, local_search_history = []\<rparr>"

section \<open>Properties of GeoLocation\<close>

lemma validate_iff_latitude:
  "validate self = Inr () \<longleftrightarrow> - 90 \<le> lat self \<and> lat self \<le> 90"
  by (auto simp: validate_def)

text \<open>
  Claim C9: \<^verbatim>\<open>validate()\<close> succeeds if and only if the latitude lies in [-90, 90] and the
  longitude lies in [-180, 180]; in particular it raises for a longitude outside
  [-180, 180]. The code does not do this: its second assertion, whose message speaks of
  the longitude, tests the latitude again. At latitude 0 and longitude 200 the method
  returns without raising.
\<close>

theorem validate_accepts_longitude_200:
  "validate \<lparr>lat = 0, long = 200\<rparr> = Inr ()
   \<and> \<not> (- 180 \<le> long \<lparr>lat = 0, long = 200\<rparr> \<and> long \<lparr>lat = 0, long = 200\<rparr> \<le> 180)"
  by (simp add: validate_def)

section \<open>Properties of EVChargingSite\<close>

text \<open>
  Claim C8: a site with \<open>num_charging_stations = 0\<close> has expected utilization exactly 0,
  whatever its other attributes are.
\<close>

theorem expected_utilization_no_stations:
  "expected_utilization (self\<lparr>num_charging_stations := 0\<rparr>) = Inr 0"
  by (simp add: expected_utilization_def and_then_def float_div_def)

subsection \<open>The quotient over the real numbers\<close>








subsection \<open>Where the sums raise\<close>

lemma sum_items_values:
  "(\<And>k. k \<in> set ks \<Longrightarrow> f k = Inr (g k)) \<Longrightarrow> sum_items (map f ks) = Inr (\<Sum>k\<leftarrow>ks. g k)"
  by (induction ks) (simp_all add: and_then_def)

lemma sum_items_all_returned:
  "sum_items (map f ks) = Inr s \<Longrightarrow> k \<in> set ks \<Longrightarrow> \<exists>x. f k = Inr x"
  by (induction ks arbitrary: s) (auto simp: and_then_def split: sum.splits)

lemma power_over_factorial_value:
  assumes "power_over_factorial u k j = Inr x"
  shows "x = u ^ nat k / fact (nat j)"
  using assms
  by (auto simp: power_over_factorial_def and_then_def float_pow_def int_to_float_def
      float_div_def split: if_splits)


lemma sum_items_power_value:
  assumes "sum_items (map (\<lambda>k. power_over_factorial u k (h k)) ks) = Inr s"
  shows "s = (\<Sum>k\<leftarrow>ks. u ^ nat k / fact (nat (h k)))"
proof -
  have "power_over_factorial u k (h k) = Inr (u ^ nat k / fact (nat (h k)))"
    if "k \<in> set ks" for k
    using sum_items_all_returned [OF assms that] power_over_factorial_value by blast
  then have "sum_items (map (\<lambda>k. power_over_factorial u k (h k)) ks)
             = Inr (\<Sum>k\<leftarrow>ks. u ^ nat k / fact (nat (h k)))"
    by (rule sum_items_values)
  then show ?thesis
    using assms by simp
qed

text \<open>
  A call that returns has computed every item of both sums, and its value is the
  quotient of the two real sums.
\<close>

lemma expected_utilization_returned:
  assumes "expected_utilization self = Inr v"
  shows "(\<forall>k \<in> set [1..num_charging_stations self].
            (\<exists>x. power_over_factorial
                   (effective_arrival_rate self * mean_charging_time self) k k = Inr x)
            \<and> (\<exists>x. power_over_factorial
                   (effective_arrival_rate self * mean_charging_time self) k (k - 1) = Inr x))
         \<and> v = (\<Sum>k\<leftarrow>[1..num_charging_stations self].
                  (effective_arrival_rate self * mean_charging_time self) ^ nat k
                  / fact (nat (k - 1)))
               / (1 + (\<Sum>k\<leftarrow>[1..num_charging_stations self].
                  (effective_arrival_rate self * mean_charging_time self) ^ nat k
                  / fact (nat k)))"
proof -
  define u where "u = effective_arrival_rate self * mean_charging_time self"
  define ks where "ks = [1..num_charging_stations self]"
  obtain s busy where
    s: "sum_items (map (\<lambda>k. power_over_factorial u k k) ks) = Inr s"
    and busy: "sum_items (map (\<lambda>k. power_over_factorial u k (k - 1)) ks) = Inr busy"
    and v: "float_div busy (1 + s) = Inr v"
    using assms
    by (auto simp: expected_utilization_def Let_def and_then_def u_def ks_def
        split: sum.splits)
  have "v = busy / (1 + s)"
    using v by (auto simp: float_div_def split: if_splits)
  then have "v = (\<Sum>k\<leftarrow>ks. u ^ nat k / fact (nat (k - 1)))
                 / (1 + (\<Sum>k\<leftarrow>ks. u ^ nat k / fact (nat k)))"
    using sum_items_power_value [OF s] sum_items_power_value [OF busy] by simp
  then show ?thesis
    using sum_items_all_returned [OF s] sum_items_all_returned [OF busy]
    unfolding u_def ks_def by blast
qed


text \<open>
  The largest factorial that converts to a float is that of 170.
\<close>

lemma fact_170_converts: "fact 170 < float_bound"
  unfolding float_bound_def by (simp add: fact_numeral)

lemma fact_171_overflows: "float_bound \<le> fact 171"
  unfolding float_bound_def by (simp add: fact_numeral)

lemma int_to_float_fact:
  "int_to_float (fact k) = (if k \<le> 170 then Inr (fact k) else Inl OverflowError)"
proof (cases "k \<le> 170")
  case True
  then have "(fact k :: real) \<le> fact 170"
    by (rule fact_mono)
  then show ?thesis
    using True fact_170_converts by (simp add: int_to_float_def)
next
  case False
  then have "171 \<le> k"
    by simp
  then have "(fact 171 :: real) \<le> fact k"
    by (rule fact_mono)
  then show ?thesis
    using False fact_171_overflows by (simp add: int_to_float_def)
qed

lemma power_over_factorial_too_large:
  "170 < nat j \<Longrightarrow> \<exists>e. power_over_factorial u k j = Inl e"
  by (simp add: power_over_factorial_def and_then_def int_to_float_fact split: sum.splits)

lemma expected_utilization_too_many_stations:
  assumes "170 < num_charging_stations self"
  shows "\<exists>e. expected_utilization self = Inl e"
proof (cases "expected_utilization self")
  case (Inl e)
  then show ?thesis by blast
next
  case (Inr v)
  have "171 \<in> set [1..num_charging_stations self]"
    using assms by simp
  then obtain x where
    "power_over_factorial (effective_arrival_rate self * mean_charging_time self) 171 171 = Inr x"
    using expected_utilization_returned [OF Inr] by blast
  moreover obtain e where
    "power_over_factorial (effective_arrival_rate self * mean_charging_time self) 171 171 = Inl e"
    using power_over_factorial_too_large [of 171] by auto
  ultimately show ?thesis
    by simp
qed




section \<open>Properties of update_effective_arrival_rates\<close>

lemma spillover_divisor_stations:
  "spillover_divisor g row ss site =
   (\<Sum>(d, n)\<leftarrow>zip row (map num_charging_stations ss).
      exp (- g * d\<^sup>2) * (of_int n / of_int (num_charging_stations site)))"
  unfolding spillover_divisor_def
  by (simp add: zip_map2 comp_def case_prod_unfold)

lemma spillover_divisor_cong:
  "map num_charging_stations ss = map num_charging_stations ss' \<Longrightarrow>
   num_charging_stations site = num_charging_stations site' \<Longrightarrow>
   spillover_divisor g row ss site = spillover_divisor g row ss' site'"
  by (simp add: spillover_divisor_stations)

lemma map_update_same:
  assumes "f y = f (xs ! i)"
  shows "map f (xs[i := y]) = map f xs"
proof (cases "i < length xs")
  case True
  have "map f (xs[i := y]) = (map f xs)[i := map f xs ! i]"
    using True assms by (simp add: map_update)
  then show ?thesis by simp
next
  case False
  then have "xs[i := y] = xs" by (simp add: list_update_beyond)
  then show ?thesis by simp
qed

lemma map_num_rate_update:
  "map num_charging_stations (ss[i := (ss ! i)\<lparr>effective_arrival_rate := r\<rparr>])
   = map num_charging_stations ss"
  by (rule map_update_same) simp

lemma loop_gamma [simp]: "gamma (update_rates_loop is self) = gamma self"
  by (induction "is" arbitrary: self) (simp_all add: Let_def)

lemma loop_matrix [simp]: "distance_matrix (update_rates_loop is self) = distance_matrix self"
  by (induction "is" arbitrary: self) (simp_all add: Let_def)

lemma loop_more [simp]:
  "EVChargingNetwork.more (update_rates_loop is self) = EVChargingNetwork.more self"
  by (induction "is" arbitrary: self) (simp_all add: Let_def)

lemma loop_length [simp]: "length (sites (update_rates_loop is self)) = length (sites self)"
  by (induction "is" arbitrary: self) (simp_all add: Let_def)

text \<open>
  The loop visits each index once. A visit changes the rate of that one site and reads
  only station counts, which no visit changes; so every visited site ends with the rate
  computed from the counts the method started with.
\<close>

lemma loop_nth:
  "distinct is \<Longrightarrow> k < length (sites self) \<Longrightarrow>
   sites (update_rates_loop is self) ! k
   = (if k \<in> set is then updated_site self k else sites self ! k)"
proof (induction "is" arbitrary: self)
  case Nil
  then show ?case by simp
next
  case (Cons i rest)
  define site where "site = sites self ! i"
  define self1 where "self1 =
    (if num_charging_stations site \<noteq> 0
     then self\<lparr>sites := (sites self)[i := site\<lparr>effective_arrival_rate :=
            arrival_rate site
            / spillover_divisor (gamma self) (distance_matrix self ! i) (sites self) site\<rparr>]\<rparr>
     else self)"
  have step: "update_rates_loop (i # rest) self = update_rates_loop rest self1"
    by (simp add: self1_def site_def Let_def)
  have len: "length (sites self1) = length (sites self)"
    by (simp add: self1_def)
  have nums: "map num_charging_stations (sites self1) = map num_charging_stations (sites self)"
    by (simp add: self1_def site_def map_num_rate_update)
  have g: "gamma self1 = gamma self" and m: "distance_matrix self1 = distance_matrix self"
    by (simp_all add: self1_def)
  have other: "sites self1 ! j = sites self ! j" if "j \<noteq> i" for j
    using that by (simp add: self1_def)
  have at_i: "sites self1 ! k = updated_site self k" if "k = i"
    using that Cons.prems(2) by (simp add: self1_def updated_site_def site_def Let_def)
  have upd: "updated_site self1 j = updated_site self j" if "j \<noteq> i" for j
  proof -
    have "spillover_divisor (gamma self1) (distance_matrix self1 ! j) (sites self1) (sites self ! j)
          = spillover_divisor (gamma self) (distance_matrix self ! j) (sites self) (sites self ! j)"
      unfolding g m using nums by (rule spillover_divisor_cong) simp
    then show ?thesis
      by (simp add: updated_site_def other [OF that] Let_def)
  qed
  have IH: "sites (update_rates_loop rest self1) ! k
            = (if k \<in> set rest then updated_site self1 k else sites self1 ! k)"
    using Cons.IH [of self1] Cons.prems len by simp
  show ?case
  proof (cases "k = i")
    case True
    then have "k \<notin> set rest" using Cons.prems(1) by simp
    then show ?thesis using IH True at_i step by simp
  next
    case False
    then show ?thesis using IH upd [OF False] other [OF False] step by simp
  qed
qed

lemma update_sites:
  "sites (update_effective_arrival_rates self) = map (updated_site self) [0..<length (sites self)]"
  by (rule nth_equalityI) (simp_all add: update_effective_arrival_rates_def loop_nth)

lemma update_nth:
  "k < length (sites self) \<Longrightarrow> sites (update_effective_arrival_rates self) ! k = updated_site self k"
  by (simp add: update_sites)

lemma update_eq:
  "update_effective_arrival_rates self
   = self\<lparr>sites := map (updated_site self) [0..<length (sites self)]\<rparr>"
proof -
  have "update_rates_loop is self = self\<lparr>sites := sites (update_rates_loop is self)\<rparr>" for "is"
    by (induction "is" arbitrary: self) (simp_all add: Let_def)
  then show ?thesis
    using update_sites [of self] by (simp add: update_effective_arrival_rates_def)
qed

text \<open>With a row of the right length the zipped sum ranges over all site indices.\<close>

lemma spillover_divisor_sum:
  assumes "length row = length ss"
  shows "spillover_divisor g row ss site
         = (\<Sum>j<length ss. exp (- g * (row ! j)\<^sup>2)
              * (of_int (num_charging_stations (ss ! j)) / of_int (num_charging_stations site)))"
proof -
  let ?f = "\<lambda>d other. exp (- g * d\<^sup>2)
        * (real_of_int (num_charging_stations other) / of_int (num_charging_stations site))"
  have "spillover_divisor g row ss site = (\<Sum>j = 0..<length (map2 ?f row ss). map2 ?f row ss ! j)"
    unfolding spillover_divisor_def by (rule sum_list_sum_nth)
  also have "\<dots> = (\<Sum>j<length ss. ?f (row ! j) (ss ! j))"
    using assms by (intro sum.cong) (auto simp: atLeast0LessThan)
  finally show ?thesis .
qed

lemma updated_site_num [simp]:
  "num_charging_stations (updated_site self k) = num_charging_stations (sites self ! k)"
  by (simp add: updated_site_def Let_def)

lemma update_length [simp]:
  "length (sites (update_effective_arrival_rates self)) = length (sites self)"
  by (simp add: update_sites)

lemma update_num:
  "k < length (sites self) \<Longrightarrow>
   num_charging_stations (sites (update_effective_arrival_rates self) ! k)
   = num_charging_stations (sites self ! k)"
  by (simp add: update_nth)

text \<open>
  Claim C6: \<open>update_effective_arrival_rates\<close> sets, for every site \<open>i\<close> with a positive
  station count, \<open>effective_arrival_rate\<close> to \<open>arrival_rate\<close> divided by the sum over all
  sites \<open>j\<close> of \<open>exp (- gamma * distance(i, j)\<^sup>2) * (stations j / stations i)\<close>, and
  leaves the rate of every site with no station unchanged. The guard of the code is
  "count not zero", which for a positive count is the first case. The quotient is the
  one of the real numbers; the theorem for claim C10 shows the divisor to be at least 1
  when no count is negative.
\<close>

theorem update_effective_arrival_rates_rate:
  assumes i: "i < length (sites self)"
    and row: "length (distance_matrix self ! i) = length (sites self)"
  shows "effective_arrival_rate (sites (update_effective_arrival_rates self) ! i)
         = (if num_charging_stations (sites self ! i) \<noteq> 0
            then arrival_rate (sites self ! i)
              / (\<Sum>j<length (sites self).
                   exp (- gamma self * (distance_matrix self ! i ! j)\<^sup>2)
                   * (of_int (num_charging_stations (sites self ! j))
                      / of_int (num_charging_stations (sites self ! i))))
            else effective_arrival_rate (sites self ! i))"
  using i by (simp add: update_nth updated_site_def Let_def spillover_divisor_sum [OF row])

theorem update_effective_arrival_rates_rate_witness:
  "effective_arrival_rate (sites (update_effective_arrival_rates
      (test_network [test_site 6 2 0 3, test_site 5 1 0 3, test_site 4 0 0 3]
         [[0, 1, 1], [1, 0, 1], [1, 1, 0]] [] 4)) ! 0)
   = 6 / (1 + exp (- 1) * (1 / 2))
   \<and> effective_arrival_rate (sites (update_effective_arrival_rates
      (test_network [test_site 6 2 0 3, test_site 5 1 0 3, test_site 4 0 0 3]
         [[0, 1, 1], [1, 0, 1], [1, 1, 0]] [] 4)) ! 2)
   = 4"
proof -
  let ?n = "test_network [test_site 6 2 0 3, test_site 5 1 0 3, test_site 4 0 0 3]
              [[0, 1, 1], [1, 0, 1], [1, 1, 0]] [] 4"
  have s: "{..<3::nat} = {0, 1, 2}"
    by auto
  have a: "0 < length (sites ?n)" "2 < length (sites ?n)"
    by (simp_all add: test_network_def)
  have b: "length (distance_matrix ?n ! 0) = length (sites ?n)"
    "length (distance_matrix ?n ! 2) = length (sites ?n)"
    by (simp_all add: test_network_def)
  show ?thesis
    using update_effective_arrival_rates_rate [of 0 ?n, OF a(1) b(1)]
      update_effective_arrival_rates_rate [of 2 ?n, OF a(2) b(2)]
    by (simp add: test_network_def test_site_def s)
qed

subsection \<open>The distance matrix\<close>

lemma set_entry_keeps:
  assumes sq: "square_zero_diagonal n m" and ne: "i \<noteq> j"
  shows "square_zero_diagonal n (set_entry i j v m)"
proof -
  have len: "length m = n" and rows: "\<And>r. r < n \<Longrightarrow> length (m ! r) = n \<and> m ! r ! r = 0"
    using sq by (simp_all add: square_zero_diagonal_def)
  have "length (m[i := (m ! i)[j := v]] ! r) = n \<and> m[i := (m ! i)[j := v]] ! r ! r = 0"
    if r: "r < n" for r
  proof (cases "r = i")
    case True
    then show ?thesis using r len rows [OF r] ne by simp
  next
    case False
    then show ?thesis using r len rows [OF r] by simp
  qed
  then show ?thesis
    using len by (simp add: square_zero_diagonal_def set_entry_def)
qed

lemma inner_loop_keeps:
  assumes "square_zero_diagonal n m"
  shows "square_zero_diagonal n
           (fold (\<lambda>j m. set_entry j i (f j) (set_entry i j (f j) m)) [i + 1..<n] m)"
proof (rule fold_invariant [where Q = "\<lambda>j. i \<noteq> j" and P = "square_zero_diagonal n"])
  show "\<And>x. x \<in> set [i + 1..<n] \<Longrightarrow> i \<noteq> x"
    by auto
  show "square_zero_diagonal n m"
    by (rule assms)
  show "\<And>x s. i \<noteq> x \<Longrightarrow> square_zero_diagonal n s \<Longrightarrow>
          square_zero_diagonal n (set_entry x i (f x) (set_entry i x (f x) s))"
    by (simp add: set_entry_keeps)
qed

text \<open>
  The constructor's matrix is square with a zero diagonal: the loops write only entries
  \<open>(i, j)\<close> and \<open>(j, i)\<close> with \<open>i < j\<close>.
\<close>

lemma compute_distance_matrix_shape:
  "square_zero_diagonal (length ss) (compute_distance_matrix distance ss)"
  unfolding compute_distance_matrix_def Let_def
proof (rule fold_invariant [where Q = "\<lambda>i. True" and P = "square_zero_diagonal (length ss)"])
  show "square_zero_diagonal (length ss) (replicate (length ss) (replicate (length ss) 0))"
    by (simp add: square_zero_diagonal_def)
  show "\<And>x s. True \<Longrightarrow> square_zero_diagonal (length ss) s \<Longrightarrow>
     square_zero_diagonal (length ss)
       (fold (\<lambda>j m. set_entry j x (distance (geolocation (ss ! x)) (geolocation (ss ! j)))
                      (set_entry x j (distance (geolocation (ss ! x)) (geolocation (ss ! j))) m))
          [x + 1..<length ss] s)"
    by (rule inner_loop_keeps)
qed simp

lemma spillover_divisor_ge_1:
  assumes n: "\<forall>site \<in> set ss. 0 \<le> num_charging_stations site"
    and i: "i < length ss" and pos: "0 < num_charging_stations (ss ! i)"
    and len: "length row = length ss" and diag: "row ! i = 0"
  shows "1 \<le> spillover_divisor g row ss (ss ! i)"
proof -
  define t where "t = (\<lambda>j. exp (- g * (row ! j)\<^sup>2)
    * (real_of_int (num_charging_stations (ss ! j)) / of_int (num_charging_stations (ss ! i))))"
  have nonneg: "0 \<le> t j" if "j < length ss" for j
  proof -
    have "0 \<le> num_charging_stations (ss ! j)"
      using n that by simp
    then show ?thesis
      using pos by (simp add: t_def)
  qed
  have own: "t i = 1"
    using pos diag by (simp add: t_def)
  have rest: "0 \<le> (\<Sum>j\<in>{..<length ss} - {i}. t j)"
    by (rule sum_nonneg) (use nonneg in auto)
  have "spillover_divisor g row ss (ss ! i) = (\<Sum>j<length ss. t j)"
    unfolding t_def using len by (rule spillover_divisor_sum)
  also have "\<dots> = t i + (\<Sum>j\<in>{..<length ss} - {i}. t j)"
    using i by (simp add: sum.remove)
  finally show ?thesis
    using own rest by linarith
qed

text \<open>
  Claim C10: if \<open>gamma \<ge> 0\<close>, every site's station count is non-negative, and site \<open>i\<close>
  has a positive station count and \<open>arrival_rate \<ge> 0\<close>, then after
  \<open>update_effective_arrival_rates\<close> the \<open>effective_arrival_rate\<close> of site \<open>i\<close> is at most
  its \<open>arrival_rate\<close>. The distance matrix is the one the constructor computed for the
  sites (site locations never change).
\<close>

theorem effective_rate_le_arrival_rate:
  assumes built: "distance_matrix self = compute_distance_matrix distance (sites self)"
    and g: "0 \<le> gamma self"
    and n: "\<forall>site \<in> set (sites self). 0 \<le> num_charging_stations site"
    and i: "i < length (sites self)"
    and pos: "0 < num_charging_stations (sites self ! i)"
    and rate: "0 \<le> arrival_rate (sites self ! i)"
  shows "effective_arrival_rate (sites (update_effective_arrival_rates self) ! i)
         \<le> arrival_rate (sites self ! i)"
proof -
  have sq: "square_zero_diagonal (length (sites self)) (distance_matrix self)"
    unfolding built by (rule compute_distance_matrix_shape)
  have len: "length (distance_matrix self ! i) = length (sites self)"
    and diag: "distance_matrix self ! i ! i = 0"
    using sq i by (simp_all add: square_zero_diagonal_def)
  have d: "1 \<le> spillover_divisor (gamma self) (distance_matrix self ! i) (sites self)
                 (sites self ! i)"
    using n i pos len diag by (rule spillover_divisor_ge_1)
  have "effective_arrival_rate (sites (update_effective_arrival_rates self) ! i)
        = arrival_rate (sites self ! i)
          / spillover_divisor (gamma self) (distance_matrix self ! i) (sites self) (sites self ! i)"
    using i pos by (simp add: update_nth updated_site_def Let_def)
  also have "\<dots> \<le> arrival_rate (sites self ! i)"
    using d rate by (simp add: divide_le_eq mult_le_cancel_left1)
  finally show ?thesis .
qed

theorem effective_rate_le_arrival_rate_witness:
  "effective_arrival_rate (sites (update_effective_arrival_rates
      \<lparr>sites = [test_site 6 2 0 3, test_site 5 1 0 3], gamma = 1,
       distance_matrix =
         compute_distance_matrix (\<lambda>p q. 1) [test_site 6 2 0 3, test_site 5 1 0 3]\<rparr>) ! 0)
   \<le> 6"
  using effective_rate_le_arrival_rate
    [of "\<lparr>sites = [test_site 6 2 0 3, test_site 5 1 0 3], gamma = 1,
          distance_matrix =
            compute_distance_matrix (\<lambda>p q. 1) [test_site 6 2 0 3, test_site 5 1 0 3]\<rparr>"
        "\<lambda>p q. 1" 0]
  by (simp add: test_site_def)

section \<open>Properties of the feasibility check\<close>

lemma is_feasible_ReturnsBool:
  "is_feasible ReturnsBool self = Inr (total_charging_stations self \<le> budget self AND 1)"
  by (simp add: is_feasible_def np_all_generator_def and_then_def and.assoc)

lemma is_feasible_ReturnsObject: "is_feasible ReturnsObject self = Inl TypeError"
  by (simp add: is_feasible_def np_all_generator_def and_then_def)

text \<open>
  Claim C1: \<^verbatim>\<open>_is_feasible()\<close> returns true if and only if the total is at most the
  budget, every count lies within the site's capacity bounds, every reference location's
  neighbourhood is supplied, and every count is a non-negative integer. The code does not
  compute this. On a network of one site with 2 stations, capacity bounds [2, 2], budget
  2 and a reference location that needs 2 stations from that site, all four conditions
  hold with equality, and the method returns false (or raises a type error, when
  \<^verbatim>\<open>np.all\<close> hands back the generator object). On one site with 1 station, capacity
  bounds [0, 0] and budget 1 the capacity condition fails, and the method returns true.
\<close>

theorem is_feasible_not_the_four_conditions:
  "is_feasible_spec (test_network [test_site 5 2 2 2] [[0]] [test_reference {0} 2] 2)
   \<and> is_feasible ReturnsBool (test_network [test_site 5 2 2 2] [[0]] [test_reference {0} 2] 2)
     = Inr False
   \<and> is_feasible ReturnsObject (test_network [test_site 5 2 2 2] [[0]] [test_reference {0} 2] 2)
     = Inl TypeError
   \<and> \<not> is_feasible_spec (test_network [test_site 5 1 0 0] [[0]] [] 1)
   \<and> is_feasible ReturnsBool (test_network [test_site 5 1 0 0] [[0]] [] 1) = Inr True"
  by (simp add: is_feasible_spec_def is_feasible_def np_all_generator_def and_then_def
      test_network_def test_site_def test_reference_def total_charging_stations_def)

section \<open>Properties of the relaxation\<close>

text \<open>
  With \<open>gamma \<ge> 0\<close> and \<open>epsilon \<ge> 0\<close> the minimum over the whole row is attained on
  the diagonal, so the cap the code computes does not depend on any distance.
\<close>

lemma adjusted_max_capacity_on_diagonal:
  assumes "0 \<le> gamma self" and "0 \<le> epsilon self"
    and "i < length (distance_matrix self ! i)" and "distance_matrix self ! i ! i = 0"
  shows "adjusted_max_capacity self i
         = Inr (min (of_int (max_capacity (sites self ! i))) (epsilon self))"
proof -
  let ?row = "distance_matrix self ! i"
  let ?f = "\<lambda>d. epsilon self * exp (gamma self * d\<^sup>2)"
  have ne: "?row \<noteq> []"
    using assms(3) by auto
  have mem: "epsilon self \<in> set (map ?f ?row)"
  proof -
    have "?f (?row ! i) \<in> set (map ?f ?row)"
      using assms(3) by (metis (no_types, lifting) length_map nth_map nth_mem)
    then show ?thesis
      using assms(4) by simp
  qed
  have low: "\<And>x. x \<in> set (map ?f ?row) \<Longrightarrow> epsilon self \<le> x"
  proof -
    fix x assume "x \<in> set (map ?f ?row)"
    then obtain d where "x = ?f d"
      by auto
    moreover have "1 \<le> exp (gamma self * d\<^sup>2)"
      using assms(1) by simp
    ultimately show "epsilon self \<le> x"
      using assms(2) by (simp add: mult_le_cancel_left1)
  qed
  have "Min (set (map ?f ?row)) = epsilon self"
    by (rule Min_eqI) (use mem low in auto)
  then show ?thesis
    using ne by (simp add: adjusted_max_capacity_def np_min_def)
qed

text \<open>
  Claim C3: the adjusted capacity of site \<open>i\<close> is the smaller of its \<open>max_capacity\<close> and
  \<open>epsilon\<close> times the minimum, over all other sites \<open>j \<noteq> i\<close>, of
  \<open>exp (gamma * distance(i, j)\<^sup>2)\<close>. The code takes the minimum over the whole row,
  the site's own zero distance included. For two sites at distance 1 with
  \<open>max_capacity = 5\<close>, \<open>gamma = 1\<close> and \<open>epsilon = 1\<close> the code's cap is 1, and the cap the
  claim describes is \<open>min 5 (exp 1)\<close>, which is greater than 1.
\<close>

theorem adjusted_max_capacity_counts_own_site:
  "adjusted_max_capacity
     (test_network [test_site 5 0 0 5, test_site 5 0 0 5] [[0, 1], [1, 0]] [] 4) 0 = Inr 1
   \<and> adjusted_max_capacity_spec
     (test_network [test_site 5 0 0 5, test_site 5 0 0 5] [[0, 1], [1, 0]] [] 4) 0
     = min 5 (exp 1)
   \<and> (1::real) < min 5 (exp 1)"
proof -
  have "{..<Suc (Suc 0)} - {0} = {Suc 0}"
    by auto
  then show ?thesis
    by (simp add: adjusted_max_capacity_def adjusted_max_capacity_spec_def np_min_def
        test_network_def test_site_def min_def)
qed

lemma py_sum_floats:
  "fold (\<lambda>item acc. py_add acc item) (map (\<lambda>k. PyFloat (f k)) ks) (PyFloat y)
   = PyFloat (y + (\<Sum>k\<leftarrow>ks. f k))"
  by (induction ks arbitrary: y) (simp_all add: add.assoc)

text \<open>
  As soon as there is one slot, the assigned count is a float: the sum of the solver's
  values.
\<close>

lemma assigned_station_count_float:
  assumes "0 < num_stations"
  shows "assigned_station_count x num_stations i
         = PyFloat (\<Sum>k\<leftarrow>[0..<nat num_stations]. x i k)"
proof -
  obtain k ks where ks: "[0..<nat num_stations] = k # ks"
    using assms by (cases "[0..<nat num_stations]") simp_all
  show ?thesis
    unfolding assigned_station_count_def py_sum_def ks
    by (simp add: py_sum_floats)
qed

text \<open>
  Claim C5: after the relaxation step (the engine sums the solver's selected binary slots
  per site and assigns the sum to the site's \<open>num_charging_stations\<close>) every site's
  \<open>num_charging_stations\<close> is a non-negative integer. The code stores a float. For one
  site with three slots of which the solver selects two (values 1.0, 1.0 and 0.0) the
  stored count is the float 2.0: it fails the program's own test
  \<^verbatim>\<open>isinstance(site.num_charging_stations, int)\<close>, and \<^verbatim>\<open>range\<close> in
  \<open>expected_utilization\<close> raises on it.
\<close>

theorem assigned_station_count_is_a_float:
  "assigned_station_count (\<lambda>i k. if k < 2 then 1 else 0) 3 0 = PyFloat 2
   \<and> \<not> isinstance_int (assigned_station_count (\<lambda>i k. if k < 2 then 1 else 0) 3 0)
   \<and> range_from_1 (assigned_station_count (\<lambda>i k. if k < 2 then 1 else 0) 3 0)
     = Inl TypeError"
proof -
  have u: "[0..<3] = [0, 1, 2::nat]"
    by (simp add: upt_rec)
  have "assigned_station_count (\<lambda>i k. if k < 2 then 1 else 0) 3 0 = PyFloat 2"
    by (simp add: assigned_station_count_def py_sum_def u)
  then show ?thesis
    by simp
qed

section \<open>Properties of the pairwise reallocation\<close>

lemma static_part_update [simp]:
  "static_part (update_effective_arrival_rates self) = static_part self"
proof -
  have "map (\<lambda>site. site\<lparr>effective_arrival_rate := 0\<rparr>) (map (updated_site self) [0..<length (sites self)])
        = map (\<lambda>site. site\<lparr>effective_arrival_rate := 0\<rparr>) (sites self)"
    by (rule nth_equalityI) (simp_all add: updated_site_def Let_def)
  then show ?thesis
    by (simp add: static_part_def update_eq)
qed

lemma stations_rate_commute:
  "(site::EVChargingSite)\<lparr>num_charging_stations := z\<rparr>\<lparr>effective_arrival_rate := r\<rparr>
   = site\<lparr>effective_arrival_rate := r\<rparr>\<lparr>num_charging_stations := z\<rparr>"
  by (cases site) simp

lemma static_part_set_stations:
  assumes "static_part Y = static_part Y'"
  shows "static_part (set_stations a z Y) = static_part (set_stations a z Y')"
proof -
  let ?e = "\<lambda>site::EVChargingSite. site\<lparr>effective_arrival_rate := 0\<rparr>"
  have m: "map ?e (sites Y) = map ?e (sites Y')"
    and g: "gamma Y = gamma Y'" and d: "distance_matrix Y = distance_matrix Y'"
    using assms by (simp_all add: static_part_def)
  have len: "length (sites Y) = length (sites Y')"
    using m by (rule map_eq_imp_length_eq)
  have "map ?e ((sites Y)[a := (sites Y ! a)\<lparr>num_charging_stations := z\<rparr>])
        = map ?e ((sites Y')[a := (sites Y' ! a)\<lparr>num_charging_stations := z\<rparr>])"
  proof (cases "a < length (sites Y)")
    case True
    have "?e (sites Y ! a) = ?e (sites Y' ! a)"
      using m True len by (metis nth_map)
    then have "(?e (sites Y ! a))\<lparr>num_charging_stations := z\<rparr> = (?e (sites Y' ! a))\<lparr>num_charging_stations := z\<rparr>"
      by simp
    then have "?e ((sites Y ! a)\<lparr>num_charging_stations := z\<rparr>) = ?e ((sites Y' ! a)\<lparr>num_charging_stations := z\<rparr>)"
      by (simp only: stations_rate_commute)
    then show ?thesis
      using m by (simp add: map_update)
  next
    case False
    then show ?thesis using m len by (simp add: list_update_beyond)
  qed
  then show ?thesis
    using g d by (simp add: static_part_def set_stations_def)
qed

lemma static_part_assign_pair:
  "static_part Y = static_part Y' \<Longrightarrow>
   static_part (assign_pair a b s Y) = static_part (assign_pair a b s Y')"
  unfolding assign_pair_def by (intro static_part_set_stations)

lemma set_stations_twice:
  "set_stations a z (set_stations a z' X) = set_stations a z X"
proof (cases "a < length (sites X)")
  case True
  then show ?thesis by (simp add: set_stations_def)
next
  case False
  then show ?thesis by (simp add: set_stations_def list_update_beyond)
qed

lemma set_stations_commute:
  "a \<noteq> b \<Longrightarrow> set_stations a z (set_stations b w X) = set_stations b w (set_stations a z X)"
  by (simp add: set_stations_def list_update_swap)

lemma assign_pair_twice:
  "assign_pair a b s (assign_pair a b c X) = assign_pair a b s X"
proof (cases "a = b")
  case True
  then show ?thesis by (simp add: assign_pair_def set_stations_twice)
next
  case False
  have "set_stations a (fst s) (set_stations b (snd c) (set_stations a (fst c) X))
        = set_stations b (snd c) (set_stations a (fst s) X)"
    using False by (simp add: set_stations_commute [of a b] set_stations_twice)
  then show ?thesis
    by (simp add: assign_pair_def set_stations_twice)
qed

lemma set_stations_own:
  "set_stations a (num_charging_stations (sites X ! a)) X = X"
  by (simp add: set_stations_def)

lemma assign_pair_own:
  "assign_pair a b (num_charging_stations (sites X ! a), num_charging_stations (sites X ! b)) X = X"
  by (simp add: assign_pair_def set_stations_own)

lemma profit_no_stations:
  "num_charging_stations site = 0 \<Longrightarrow> profit site = Inr (fixed_cost site)"
  by (simp add: profit_def expected_utilization_def and_then_def float_div_def)


lemma static_part_nums:
  "static_part Y = static_part Y' \<Longrightarrow>
   map num_charging_stations (sites Y) = map num_charging_stations (sites Y')"
proof -
  assume "static_part Y = static_part Y'"
  then have "map (\<lambda>site. site\<lparr>effective_arrival_rate := 0\<rparr>) (sites Y)
             = map (\<lambda>site. site\<lparr>effective_arrival_rate := 0\<rparr>) (sites Y')"
    by (simp add: static_part_def)
  then have "map num_charging_stations (map (\<lambda>site. site\<lparr>effective_arrival_rate := 0\<rparr>) (sites Y))
             = map num_charging_stations (map (\<lambda>site. site\<lparr>effective_arrival_rate := 0\<rparr>) (sites Y'))"
    by simp
  then show ?thesis
    by (simp add: comp_def)
qed

lemma profit_updated_site:
  assumes st: "static_part Y = static_part Y'" and k: "k < length (sites Y)"
  shows "profit (updated_site Y k) = profit (updated_site Y' k)"
proof -
  let ?e = "\<lambda>site::EVChargingSite. site\<lparr>effective_arrival_rate := 0\<rparr>"
  have m: "map ?e (sites Y) = map ?e (sites Y')"
    and g: "gamma Y = gamma Y'" and d: "distance_matrix Y = distance_matrix Y'"
    using st by (simp_all add: static_part_def)
  have len: "length (sites Y) = length (sites Y')"
    using m by (rule map_eq_imp_length_eq)
  have e: "?e (sites Y ! k) = ?e (sites Y' ! k)"
    using m k len by (metis nth_map)
  have num: "num_charging_stations (sites Y ! k) = num_charging_stations (sites Y' ! k)"
    using arg_cong [OF e, of num_charging_stations] by simp
  have arr: "arrival_rate (sites Y ! k) = arrival_rate (sites Y' ! k)"
    using arg_cong [OF e, of arrival_rate] by simp
  have fc: "fixed_cost (sites Y ! k) = fixed_cost (sites Y' ! k)"
    using arg_cong [OF e, of fixed_cost] by simp
  have set_rate: "(sites Y ! k)\<lparr>effective_arrival_rate := r\<rparr>
                  = (sites Y' ! k)\<lparr>effective_arrival_rate := r\<rparr>" for r
    using arg_cong [OF e, of "\<lambda>site. site\<lparr>effective_arrival_rate := r\<rparr>"] by simp
  show ?thesis
  proof (cases "num_charging_stations (sites Y ! k) = 0")
    case True
    then show ?thesis
      using num fc by (simp add: updated_site_def Let_def profit_no_stations)
  next
    case False
    have "spillover_divisor (gamma Y) (distance_matrix Y ! k) (sites Y) (sites Y ! k)
          = spillover_divisor (gamma Y') (distance_matrix Y' ! k) (sites Y') (sites Y' ! k)"
      unfolding g d using static_part_nums [OF st] num by (rule spillover_divisor_cong)
    then show ?thesis
      using False num arr set_rate by (simp add: updated_site_def Let_def)
  qed
qed

lemma total_profit_update_static:
  assumes st: "static_part Y = static_part Y'"
  shows "total_profit (update_effective_arrival_rates Y)
         = total_profit (update_effective_arrival_rates Y')"
proof -
  have len: "length (sites Y) = length (sites Y')"
    using static_part_nums [OF st] by (rule map_eq_imp_length_eq)
  have "map profit (map (updated_site Y) [0..<length (sites Y)])
        = map profit (map (updated_site Y') [0..<length (sites Y')])"
    using len by (auto simp: profit_updated_site [OF st])
  then show ?thesis
    by (simp add: total_profit_def update_sites)
qed

lemma same_staticD:
  "same_static a b X X0 \<Longrightarrow> static_part (assign_pair a b s X) = static_part (assign_pair a b s X0)"
  unfolding same_static_def by (rule spec)

lemma same_static_refl: "same_static a b X X"
  unfolding same_static_def by (rule allI) (rule refl)

lemma same_static_assign:
  assumes "same_static a b X X0"
  shows "same_static a b (assign_pair a b c X) X0"
  unfolding same_static_def
proof
  fix s
  show "static_part (assign_pair a b s (assign_pair a b c X)) = static_part (assign_pair a b s X0)"
    unfolding assign_pair_twice using assms by (rule same_staticD)
qed

lemma same_static_update:
  assumes "same_static a b X X0"
  shows "same_static a b (update_effective_arrival_rates X) X0"
  unfolding same_static_def
proof
  fix s
  have "static_part (assign_pair a b s (update_effective_arrival_rates X))
        = static_part (assign_pair a b s X)"
    by (rule static_part_assign_pair) (rule static_part_update)
  also have "\<dots> = static_part (assign_pair a b s X0)"
    using assms by (rule same_staticD)
  finally show "static_part (assign_pair a b s (update_effective_arrival_rates X))
                = static_part (assign_pair a b s X0)" .
qed

lemma pair_loop_invariant:
  assumes K: "same_static a b X X0"
    and J: "total_profit (update_effective_arrival_rates (assign_pair a b bs X0)) = Inr bv"
    and R: "pair_loop np a b cs X bs bv = Inr (X', bs', bv')"
  shows "same_static a b X' X0
         \<and> total_profit (update_effective_arrival_rates (assign_pair a b bs' X0)) = Inr bv'
         \<and> bv \<le> bv' \<and> (bv' = bv \<longrightarrow> bs' = bs)"
  using K J R
proof (induction cs arbitrary: X bs bv)
  case Nil
  then show ?case by auto
next
  case (Cons c cs)
  define X1 where "X1 = assign_pair a b c X"
  have K1: "same_static a b X1 X0"
    unfolding X1_def using Cons.prems(1) by (rule same_static_assign)
  define X2 where "X2 = update_effective_arrival_rates X1"
  have K2: "same_static a b X2 X0"
    unfolding X2_def using K1 by (rule same_static_update)
  have "static_part X1 = static_part (assign_pair a b c X0)"
    unfolding X1_def using Cons.prems(1) by (rule same_staticD)
  then have obj: "total_profit (update_effective_arrival_rates (assign_pair a b c X0))
                  = total_profit X2"
    unfolding X2_def by (rule total_profit_update_static [symmetric])
  obtain feasible where f: "is_feasible np X1 = Inr feasible"
    using Cons.prems(3) by (cases "is_feasible np X1") (simp_all add: X1_def Let_def)
  show ?case
  proof (cases feasible)
    case False
    then have "pair_loop np a b cs X1 bs bv = Inr (X', bs', bv')"
      using Cons.prems(3) f by (simp add: X1_def Let_def)
    from Cons.IH [OF K1 Cons.prems(2) this] show ?thesis .
  next
    case True
    obtain obj_val where o: "total_profit X2 = Inr obj_val"
      using Cons.prems(3) f True
      by (cases "total_profit X2") (simp_all add: X1_def X2_def Let_def)
    show ?thesis
    proof (cases "obj_val > bv")
      case better: True
      then have "pair_loop np a b cs X2 c obj_val = Inr (X', bs', bv')"
        using Cons.prems(3) f True o by (simp add: X1_def X2_def Let_def)
      from Cons.IH [OF K2 obj [unfolded o] this] better show ?thesis by auto
    next
      case False
      then have "pair_loop np a b cs X2 bs bv = Inr (X', bs', bv')"
        using Cons.prems(3) f True o by (simp add: X1_def X2_def Let_def)
      from Cons.IH [OF K2 Cons.prems(2) this] show ?thesis .
    qed
  qed
qed

text \<open>
  When \<^verbatim>\<open>np.all\<close> yields a truth value, the loop can only raise where a total profit
  cannot be computed.
\<close>

lemma pair_loop_returns:
  assumes "same_static a b X X0"
    and "\<forall>c \<in> set cs.
           \<exists>p. total_profit (update_effective_arrival_rates (assign_pair a b c X0)) = Inr p"
  shows "\<exists>r. pair_loop ReturnsBool a b cs X bs bv = Inr r"
  using assms
proof (induction cs arbitrary: X bs bv)
  case Nil
  then show ?case by simp
next
  case (Cons c cs)
  define X1 where "X1 = assign_pair a b c X"
  have K1: "same_static a b X1 X0"
    unfolding X1_def using Cons.prems(1) by (rule same_static_assign)
  define X2 where "X2 = update_effective_arrival_rates X1"
  have K2: "same_static a b X2 X0"
    unfolding X2_def using K1 by (rule same_static_update)
  have rest: "\<forall>c \<in> set cs.
           \<exists>p. total_profit (update_effective_arrival_rates (assign_pair a b c X0)) = Inr p"
    using Cons.prems(2) by simp
  have "static_part X1 = static_part (assign_pair a b c X0)"
    unfolding X1_def using Cons.prems(1) by (rule same_staticD)
  then have "total_profit X2
             = total_profit (update_effective_arrival_rates (assign_pair a b c X0))"
    unfolding X2_def by (rule total_profit_update_static)
  then obtain p where p: "total_profit X2 = Inr p"
    using Cons.prems(2) by auto
  show ?case
    using Cons.IH [OF K1 rest] Cons.IH [OF K2 rest] p
    by (simp add: is_feasible_ReturnsBool Let_def flip: X1_def X2_def)
qed

text \<open>
  Running \<open>update_effective_arrival_rates\<close> a second time changes nothing, so the
  rates are up to date in every network that \<open>optimize_pair\<close> returns.
\<close>

lemma update_gamma [simp]: "gamma (update_effective_arrival_rates self) = gamma self"
  by (simp add: update_effective_arrival_rates_def)

lemma update_matrix [simp]:
  "distance_matrix (update_effective_arrival_rates self) = distance_matrix self"
  by (simp add: update_effective_arrival_rates_def)

lemma updated_site_again:
  assumes k: "k < length (sites self)"
  shows "updated_site (update_effective_arrival_rates self) k = updated_site self k"
proof -
  define u where "u = update_effective_arrival_rates self"
  define s where "s = sites self ! k"
  have nums: "map num_charging_stations (sites u) = map num_charging_stations (sites self)"
    unfolding u_def by (rule static_part_nums) (rule static_part_update)
  have site: "sites u ! k = updated_site self k"
    unfolding u_def using k by (rule update_nth)
  have n: "num_charging_stations (sites u ! k) = num_charging_stations s"
    unfolding site s_def by (rule updated_site_num)
  have D: "spillover_divisor (gamma u) (distance_matrix u ! k) (sites u) (sites u ! k)
           = spillover_divisor (gamma self) (distance_matrix self ! k) (sites self) s"
  proof -
    have "spillover_divisor (gamma self) (distance_matrix self ! k) (sites u) (sites u ! k)
           = spillover_divisor (gamma self) (distance_matrix self ! k) (sites self) s"
      using nums n by (rule spillover_divisor_cong)
    then show ?thesis
      by (simp add: u_def)
  qed
  show ?thesis
  proof (cases "num_charging_stations s = 0")
    case True
    have "updated_site u k = sites u ! k"
      using True n by (simp add: updated_site_def [of u] Let_def)
    then have "updated_site u k = updated_site self k"
      using site by (rule trans)
    then show ?thesis
      unfolding u_def .
  next
    case False
    have old: "updated_site self k
               = s\<lparr>effective_arrival_rate := arrival_rate s
                    / spillover_divisor (gamma self) (distance_matrix self ! k) (sites self) s\<rparr>"
      using False by (simp add: updated_site_def [of self] Let_def s_def)
    have "updated_site u k
          = (sites u ! k)\<lparr>effective_arrival_rate := arrival_rate (sites u ! k)
               / spillover_divisor (gamma u) (distance_matrix u ! k) (sites u) (sites u ! k)\<rparr>"
      using False n by (simp add: updated_site_def [of u] Let_def)
    also have "\<dots> = (updated_site self k)\<lparr>effective_arrival_rate :=
               arrival_rate (updated_site self k)
               / spillover_divisor (gamma self) (distance_matrix self ! k) (sites self) s\<rparr>"
      unfolding site D [unfolded site] ..
    also have "\<dots> = updated_site self k"
      unfolding old by simp
    finally show ?thesis
      unfolding u_def .
  qed
qed

lemma update_idempotent:
  "update_effective_arrival_rates (update_effective_arrival_rates self)
   = update_effective_arrival_rates self"
proof -
  define u where "u = update_effective_arrival_rates self"
  have len: "length (sites u) = length (sites self)"
    unfolding u_def by (rule update_length)
  have m: "map (updated_site u) [0..<length (sites self)]
           = map (updated_site self) [0..<length (sites self)]"
    unfolding u_def by (simp add: updated_site_again)
  have "update_effective_arrival_rates u = u\<lparr>sites := map (updated_site u) [0..<length (sites u)]\<rparr>"
    by (rule update_eq)
  also have "\<dots> = u\<lparr>sites := map (updated_site self) [0..<length (sites self)]\<rparr>"
    unfolding len m ..
  also have "\<dots> = u"
  proof -
    have "map (updated_site self) [0..<length (sites self)] = sites u"
      unfolding u_def by (rule update_sites [symmetric])
    then show ?thesis
      by simp
  qed
  finally show ?thesis
    unfolding u_def .
qed


lemma optimize_pair_up_to_date:
  assumes "optimize_pair np a b self = Inr (self', v)"
  shows "update_effective_arrival_rates self' = self'"
proof -
  obtain X where "self' = update_effective_arrival_rates X"
    using assms by (auto simp: optimize_pair_def Let_def split: sum.splits)
  then show ?thesis
    by (simp add: update_idempotent)
qed

lemma upt_2: "[0..<2] = [0, Suc 0]"
  by (simp add: upt_rec)

lemma test_network_up_to_date:
  "update_effective_arrival_rates
     (test_network [test_site 5 1 0 1, test_site 10 0 0 1] [[0, 1], [1, 0]] [] 1)
   = test_network [test_site 5 1 0 1, test_site 10 0 0 1] [[0, 1], [1, 0]] [] 1"
  by (simp add: update_eq updated_site_def spillover_divisor_def test_network_def test_site_def
      upt_2)

text \<open>Small powers and small ints are in the range of a float.\<close>

lemma float_pow_small: "\<bar>x ^ k\<bar> \<le> 2 ^ 64 \<Longrightarrow> float_pow x k = Inr (x ^ k)"
  by (simp add: float_pow_def float_bound_def)

lemma int_to_float_small: "\<bar>n\<bar> \<le> 2 ^ 64 \<Longrightarrow> int_to_float n = Inr (of_int n)"
proof -
  assume "\<bar>n\<bar> \<le> 2 ^ 64"
  then have "\<bar>real_of_int n\<bar> \<le> 2 ^ 64"
    by (metis of_int_abs of_int_le_iff of_int_numeral of_int_power)
  then show ?thesis
    by (simp add: int_to_float_def float_bound_def)
qed

lemmas evaluation =
  update_eq updated_site_def spillover_divisor_def test_network_def test_site_def upt_2
  total_profit_def profit_def expected_utilization_def power_over_factorial_def
  float_pow_small int_to_float_small float_div_def and_then_def
  pair_candidates_def upto_rec1
  optimize_pair_def local_search_iteration_def assign_pair_def set_stations_def
  is_feasible_ReturnsBool is_feasible_ReturnsObject total_charging_stations_def Let_def

text \<open>
  Claim C4: every call of \<^verbatim>\<open>_optimize_pair\<close> is profit non-decreasing. The value it
  returns is at least the total profit before the call and equals \<open>total_profit\<close> of the
  network it leaves behind, and a call that finds no improvement leaves every station
  count as it was. This holds for whatever the feasibility check answers, whenever the
  call returns; and it does return when \<^verbatim>\<open>np.all\<close> yields a truth value and the total
  profit can be computed before the call and for every pair of counts that the loops
  visit. Before the call the rates are up to date, as they are after the relaxation and
  after each earlier call.
\<close>

theorem optimize_pair_profit_nondecreasing:
  assumes sync: "update_effective_arrival_rates self = self"
  shows "((\<exists>p. total_profit self = Inr p)
          \<and> (\<forall>c \<in> set (pair_candidates (sites self ! a) (sites self ! b)
                          (num_charging_stations (sites self ! a)
                           + num_charging_stations (sites self ! b))).
                \<exists>p. total_profit (update_effective_arrival_rates (assign_pair a b c self))
                     = Inr p)
          \<longrightarrow> (\<exists>self' v. optimize_pair ReturnsBool a b self = Inr (self', v)))
         \<and> (\<forall>np self' v. optimize_pair np a b self = Inr (self', v) \<longrightarrow>
               (\<exists>p. total_profit self = Inr p \<and> p \<le> v) \<and> total_profit self' = Inr v
               \<and> (total_profit self = Inr v \<longrightarrow>
                    map num_charging_stations (sites self')
                    = map num_charging_stations (sites self)))"
proof (intro conjI allI impI)
  define bs0 where
    "bs0 = (num_charging_stations (sites self ! a), num_charging_stations (sites self ! b))"
  define cs where "cs = pair_candidates (sites self ! a) (sites self ! b) (fst bs0 + snd bs0)"
  have own: "assign_pair a b bs0 self = self"
    unfolding bs0_def by (rule assign_pair_own)
  have J: "total_profit (update_effective_arrival_rates (assign_pair a b bs0 self))
           = total_profit self"
    using own sync by simp
  have unfold: "optimize_pair np a b self =
      (case total_profit self of
         Inl e \<Rightarrow> Inl e
       | Inr p \<Rightarrow>
          (case pair_loop np a b cs self bs0 p of
             Inl e \<Rightarrow> Inl e
           | Inr (self1, bs1, bv1) \<Rightarrow>
               Inr (update_effective_arrival_rates (assign_pair a b bs1 self1), bv1)))" for np
    by (simp add: optimize_pair_def Let_def bs0_def cs_def split: sum.splits)
  show "\<exists>self' v. optimize_pair ReturnsBool a b self = Inr (self', v)"
    if computable: "(\<exists>p. total_profit self = Inr p)
          \<and> (\<forall>c \<in> set (pair_candidates (sites self ! a) (sites self ! b)
                          (num_charging_stations (sites self ! a)
                           + num_charging_stations (sites self ! b))).
                \<exists>p. total_profit (update_effective_arrival_rates (assign_pair a b c self))
                     = Inr p)"
  proof -
    obtain p where p: "total_profit self = Inr p"
      using computable by blast
    have "\<forall>c \<in> set cs.
            \<exists>p. total_profit (update_effective_arrival_rates (assign_pair a b c self)) = Inr p"
      using computable by (simp add: cs_def bs0_def)
    with same_static_refl obtain r where "pair_loop ReturnsBool a b cs self bs0 p = Inr r"
      using pair_loop_returns by blast
    then show ?thesis
      unfolding unfold p by (cases r) simp
  qed
  fix np self' v
  assume res: "optimize_pair np a b self = Inr (self', v)"
  then obtain p X' bs' where
    p: "total_profit self = Inr p"
    and R: "pair_loop np a b cs self bs0 p = Inr (X', bs', v)"
    and s': "self' = update_effective_arrival_rates (assign_pair a b bs' X')"
    unfolding unfold by (auto split: sum.splits)
  have inv: "same_static a b X' self
         \<and> total_profit (update_effective_arrival_rates (assign_pair a b bs' self)) = Inr v
         \<and> p \<le> v \<and> (v = p \<longrightarrow> bs' = bs0)"
    using same_static_refl J [unfolded p] R by (rule pair_loop_invariant)
  have K': "static_part (assign_pair a b s X') = static_part (assign_pair a b s self)" for s
    using inv by (simp add: same_staticD)
  show "\<exists>p. total_profit self = Inr p \<and> p \<le> v"
    using inv p by simp
  have "total_profit self' = total_profit (update_effective_arrival_rates (assign_pair a b bs' self))"
    unfolding s' using K' by (rule total_profit_update_static)
  then show "total_profit self' = Inr v"
    using inv by simp
  show "map num_charging_stations (sites self') = map num_charging_stations (sites self)"
    if "total_profit self = Inr v"
  proof -
    have "bs' = bs0"
      using inv that p by simp
    then have "static_part (assign_pair a b bs' X') = static_part self"
      using K' [of bs0] own by simp
    then have "static_part self' = static_part self"
      unfolding s' by simp
    then show ?thesis
      by (rule static_part_nums)
  qed
qed

theorem optimize_pair_profit_nondecreasing_witness:
  "\<exists>self' v. optimize_pair ReturnsBool 0 1
        (test_network [test_site 5 1 0 1, test_site 10 0 0 1] [[0, 1], [1, 0]] [] 1) = Inr (self', v)
     \<and> total_profit (test_network [test_site 5 1 0 1, test_site 10 0 0 1] [[0, 1], [1, 0]] [] 1)
       = Inr (19/6)
     \<and> 19/6 \<le> v
     \<and> total_profit self' = Inr v"
proof -
  let ?n = "test_network [test_site 5 1 0 1, test_site 10 0 0 1] [[0, 1], [1, 0]] [] 1"
  have p: "total_profit ?n = Inr (19/6)"
    by (simp add: evaluation)
  have c: "pair_candidates (sites ?n ! 0) (sites ?n ! 1)
             (num_charging_stations (sites ?n ! 0) + num_charging_stations (sites ?n ! 1))
           = [(0, 0), (0, 1), (1, 0)]"
    by (simp add: evaluation)
  have "total_profit (update_effective_arrival_rates (assign_pair 0 1 (0, 0) ?n)) = Inr 2"
    "total_profit (update_effective_arrival_rates (assign_pair 0 1 (0, 1) ?n)) = Inr (73/22)"
    "total_profit (update_effective_arrival_rates (assign_pair 0 1 (1, 0) ?n)) = Inr (19/6)"
    by (simp_all add: evaluation)
  then have
    "\<exists>p. total_profit (update_effective_arrival_rates (assign_pair 0 1 (0, 0) ?n)) = Inr p"
    "\<exists>p. total_profit (update_effective_arrival_rates (assign_pair 0 1 (0, 1) ?n)) = Inr p"
    "\<exists>p. total_profit (update_effective_arrival_rates (assign_pair 0 1 (1, 0) ?n)) = Inr p"
    by blast+
  then have "\<forall>c \<in> set [(0, 0), (0, 1), (1, 0)].
          \<exists>p. total_profit (update_effective_arrival_rates (assign_pair 0 1 c ?n)) = Inr p"
    by (simp only: list.set ball_simps simp_thms)
  then show ?thesis
    using optimize_pair_profit_nondecreasing [OF test_network_up_to_date, of 0 1] p c
    by (metis sum.inject(2))
qed

section \<open>Properties of the local search\<close>

lemma pair_loop_same_static:
  "same_static a b X X0 \<Longrightarrow> pair_loop np a b cs X bs bv = Inr (X', bs', bv') \<Longrightarrow>
   same_static a b X' X0"
proof (induction cs arbitrary: X bs bv)
  case Nil
  then show ?case by simp
next
  case (Cons c cs)
  define X1 where "X1 = assign_pair a b c X"
  have K1: "same_static a b X1 X0"
    unfolding X1_def using Cons.prems(1) by (rule same_static_assign)
  have K2: "same_static a b (update_effective_arrival_rates X1) X0"
    using K1 by (rule same_static_update)
  show ?case
    using Cons.prems(2) Cons.IH [OF K1] Cons.IH [OF K2]
    by (auto simp: X1_def Let_def split: sum.splits if_splits)
qed

lemma set_stations_other:
  "k \<noteq> a \<Longrightarrow> sites (set_stations a z X) ! k = sites X ! k"
  by (simp add: set_stations_def)

lemma optimize_pair_other_sites:
  assumes res: "optimize_pair np a b self = Inr (self', v)"
    and k: "k < length (sites self)" "k \<noteq> a" "k \<noteq> b"
  shows "num_charging_stations (sites self' ! k) = num_charging_stations (sites self ! k)"
proof -
  obtain p X' bs' bv' where
    R: "pair_loop np a b
          (pair_candidates (sites self ! a) (sites self ! b)
             (num_charging_stations (sites self ! a) + num_charging_stations (sites self ! b)))
          self (num_charging_stations (sites self ! a), num_charging_stations (sites self ! b))
          p = Inr (X', bs', bv')"
    and s': "self' = update_effective_arrival_rates (assign_pair a b bs' X')"
    using res by (auto simp: optimize_pair_def Let_def split: sum.splits)
  have "same_static a b X' self"
    using same_static_refl R by (rule pair_loop_same_static)
  then have "static_part (assign_pair a b bs' X') = static_part (assign_pair a b bs' self)"
    by (rule same_staticD)
  then have "static_part self' = static_part (assign_pair a b bs' self)"
    unfolding s' by simp
  then have m: "map num_charging_stations (sites self')
             = map num_charging_stations (sites (assign_pair a b bs' self))"
    by (rule static_part_nums)
  have len: "length (sites (assign_pair a b bs' self)) = length (sites self)"
    by (simp add: assign_pair_def set_stations_def)
  have "num_charging_stations (sites self' ! k)
        = num_charging_stations (sites (assign_pair a b bs' self) ! k)"
    using m k(1) len by (metis length_map nth_map)
  also have "\<dots> = num_charging_stations (sites self ! k)"
    using k by (simp add: assign_pair_def set_stations_other)
  finally show ?thesis .
qed

lemma local_search_iteration_keeps_first_draw:
  assumes "local_search_iteration np i j self = Inr self'"
    and "i < length (sites self)" and "i \<noteq> j"
  shows "num_charging_stations (sites self' ! i) = num_charging_stations (sites self ! i)"
proof -
  obtain self1 v where r: "optimize_pair np j j self = Inr (self1, v)"
    and s: "self' = self1\<lparr>local_search_history := local_search_history self1 @ [v]\<rparr>"
    using assms(1) by (auto simp: local_search_iteration_def split: sum.splits)
  have "num_charging_stations (sites self1 ! i) = num_charging_stations (sites self ! i)"
    using r assms(2,3,3) by (rule optimize_pair_other_sites)
  then show ?thesis
    by (simp add: s)
qed

text \<open>
  The rates are up to date in the network that the constructor builds and after every
  iteration of the local search; \<^verbatim>\<open>_solve_relaxation\<close> ends with a call of
  \<open>update_effective_arrival_rates\<close>, after which they are up to date by
  \<open>update_idempotent\<close>. This is what the theorem on \<open>optimize_pair\<close> asks of the
  network it is given.
\<close>

lemma init_network_up_to_date:
  "update_effective_arrival_rates (init_network distance ss g) = init_network distance ss g"
  unfolding init_network_def by (rule update_idempotent)

lemma update_history:
  "update_effective_arrival_rates (self\<lparr>local_search_history := h\<rparr>)
   = (update_effective_arrival_rates self)\<lparr>local_search_history := h\<rparr>"
proof -
  have "updated_site (self\<lparr>local_search_history := h\<rparr>) = updated_site self"
    by (rule ext) (simp add: updated_site_def Let_def)
  then show ?thesis
    by (simp add: update_eq)
qed

lemma local_search_iteration_up_to_date:
  assumes "local_search_iteration np i j self = Inr self'"
  shows "update_effective_arrival_rates self' = self'"
proof -
  obtain self1 v where r: "optimize_pair np j j self = Inr (self1, v)"
    and s: "self' = self1\<lparr>local_search_history := local_search_history self1 @ [v]\<rparr>"
    using assms by (auto simp: local_search_iteration_def split: sum.splits)
  show ?thesis
    unfolding s update_history optimize_pair_up_to_date [OF r] ..
qed

text \<open>
  Claim C2: in every local-search iteration, after the site \<open>i\<close> and the second site
  \<open>j \<noteq> i\<close> have been drawn, the pairwise reallocation is performed on the two distinct
  sites \<open>i\<close> and \<open>j\<close>. The code passes \<^verbatim>\<open>self.sites[j]\<close> for both arguments and never
  uses \<open>i\<close> after the draw. On two sites at distance 1 with capacity bounds [0, 1] and
  budget 1, where site 0 (arrival rate 5) holds the one station and site 1 (arrival rate
  10) none, the draw \<open>i = 0\<close>, \<open>j = 1\<close> is possible. The iteration leaves the allocation at
  \<open>[1, 0]\<close> with profit 19/6. The reallocation over the pair (site 0, site 1) moves the
  station to site 1, for a profit of 73/22. When \<^verbatim>\<open>np.all\<close> hands back the generator
  object the iteration raises.
\<close>

theorem local_search_iteration_pairs_site_with_itself:
  "may_sample (test_network [test_site 5 1 0 1, test_site 10 0 0 1] [[0, 1], [1, 0]] [] 1) 0 1
   \<and> (case local_search_iteration ReturnsBool 0 1
             (test_network [test_site 5 1 0 1, test_site 10 0 0 1] [[0, 1], [1, 0]] [] 1) of
        Inl e \<Rightarrow> None
      | Inr self' \<Rightarrow>
          Some (map num_charging_stations (sites self'), local_search_history self'))
     = Some ([1, 0], [19/6])
   \<and> (case optimize_pair ReturnsBool 0 1
             (test_network [test_site 5 1 0 1, test_site 10 0 0 1] [[0, 1], [1, 0]] [] 1) of
        Inl e \<Rightarrow> None
      | Inr (self', v) \<Rightarrow> Some (map num_charging_stations (sites self'), v))
     = Some ([0, 1], 73/22)
   \<and> local_search_iteration ReturnsObject 0 1
         (test_network [test_site 5 1 0 1, test_site 10 0 0 1] [[0, 1], [1, 0]] [] 1)
     = Inl TypeError"
proof (intro conjI)
  show "may_sample (test_network [test_site 5 1 0 1, test_site 10 0 0 1] [[0, 1], [1, 0]] [] 1) 0 1"
    by (simp add: may_sample_def sampling_probabilities_def sampling_weights_def
        test_network_def)
qed (simp_all add: evaluation)

end
